theory Spec2Isabelle
  imports Complex_Main "HOL-Library.AList"
begin

section \<open>The in-memory tables of bot.py\<close>

text \<open>
  The module keeps three globals: \<^verbatim>\<open>queue: List[int]\<close>, \<^verbatim>\<open>sessions: Dict[int, int]\<close> and
  \<^verbatim>\<open>last_time: Dict[int, float]\<close>. A Python dict keeps its keys in insertion order and
  \<^verbatim>\<open>json.dump\<close> writes them in that order, so \<open>sessions\<close> is an association list:
  \<open>AList.update\<close> overwrites the value of a key in place or appends a new key at the end, as
  \<^verbatim>\<open>sessions[a] = b\<close> does, and \<open>AList.delete\<close> is \<^verbatim>\<open>sessions.pop(k, None)\<close>.
  The rate-limit ledger is never written to disk and is a map. Timestamps are the floats of
  \<^verbatim>\<open>time.time()\<close>, read here as real numbers.
\<close>

record state =
  queue :: "int list"
  sessions :: "(int \<times> int) list"
  last_time :: "int \<rightharpoonup> real"

definition empty_state :: state where
  "empty_state = \<lparr>queue = [], sessions = [], last_time = Map.empty\<rparr>"

text \<open>
  \<^verbatim>\<open>if other:\<close> on an \<^verbatim>\<open>Optional[int]\<close>: Python's truth test is false for \<^verbatim>\<open>None\<close> and for \<^verbatim>\<open>0\<close>.
  In \<open>unpair\<close> it guards the removal of the reverse entry.
\<close>

text \<open>
  \<^verbatim>\<open>save_state()\<close> is called at the end of \<open>pair\<close>, \<open>unpair\<close> and \<open>find_partner\<close>. It reads the
  two tables and changes neither (a failure is logged), so it does not appear in the
  functions below; the snapshot it writes is modelled in its own section.
\<close>

definition pair :: "int \<Rightarrow> int \<Rightarrow> state \<Rightarrow> state" where
  "pair a b s = s\<lparr>sessions := AList.update b a (AList.update a b (sessions s))\<rparr>"

definition unpair :: "int \<Rightarrow> state \<Rightarrow> int option \<times> state" where
  "unpair uid s =
     (let other = map_of (sessions s) uid;
          ss = AList.delete uid (sessions s);
          ss' = (case other of
                   None \<Rightarrow> ss
                 | Some p \<Rightarrow> if p \<noteq> 0 then AList.delete p ss else ss)
      in (other, s\<lparr>sessions := ss'\<rparr>))"

definition find_partner :: "int \<Rightarrow> state \<Rightarrow> int option \<times> state" where
  "find_partner uid s =
     (case map_of (sessions s) uid of
        Some p \<Rightarrow> (Some p, s)
      | None \<Rightarrow>
          (let q = (if uid \<in> set (queue s) then remove1 uid (queue s) else queue s)
           in case q of
                other # rest \<Rightarrow> (Some other, pair uid other (s\<lparr>queue := rest\<rparr>))
              | [] \<Rightarrow> (None, s\<lparr>queue := q @ [uid]\<rparr>)))"

text \<open>
  The state part of \<open>cmd_anon_stop\<close>: \<^verbatim>\<open>partner = unpair(uid)\<close>, then the removal of \<open>uid\<close>
  from the queue. The messages the handler sends sit in \<^verbatim>\<open>try/except: pass\<close> blocks and
  touch no table. The first component is the handler's local \<^verbatim>\<open>partner\<close>.
\<close>

definition cmd_anon_stop :: "int \<Rightarrow> state \<Rightarrow> int option \<times> state" where
  "cmd_anon_stop uid s =
     (let (partner, s1) = unpair uid s
      in (partner,
          if uid \<in> set (queue s1) then s1\<lparr>queue := remove1 uid (queue s1)\<rparr> else s1))"

text \<open>A sequence of calls, run from left to right, with the value each call returns.\<close>

datatype call = RequestPartner int | EndSession int

fun caller :: "call \<Rightarrow> int" where
  "caller (RequestPartner u) = u"
| "caller (EndSession u) = u"

fun do_call :: "call \<Rightarrow> state \<Rightarrow> int option \<times> state" where
  "do_call (RequestPartner u) s = find_partner u s"
| "do_call (EndSession u) s = cmd_anon_stop u s"

fun run_calls :: "call list \<Rightarrow> state \<Rightarrow> int option list \<times> state" where
  "run_calls [] s = ([], s)"
| "run_calls (c # cs) s =
     (let (r, s1) = do_call c s; (rs, s2) = run_calls cs s1 in (r # rs, s2))"

text \<open>The invariants of the data model, as predicates on a state.\<close>

definition symmetric :: "state \<Rightarrow> bool" where
  "symmetric s \<longleftrightarrow>
     (\<forall>(a, b) \<in> set (sessions s). map_of (sessions s) a = Some b \<longrightarrow> map_of (sessions s) b = Some a)"

definition irreflexive :: "state \<Rightarrow> bool" where
  "irreflexive s \<longleftrightarrow> (\<forall>(a, b) \<in> set (sessions s). map_of (sessions s) a = Some b \<longrightarrow> a \<noteq> b)"

definition queue_table_disjoint :: "state \<Rightarrow> bool" where
  "queue_table_disjoint s \<longleftrightarrow> (\<forall>u \<in> set (queue s). map_of (sessions s) u = None)"


text \<open>
  The invariant the proofs carry along a run: the table as a map is symmetric, has no
  self-pairing and no partner \<open>0\<close>, the queue has no duplicates and no \<open>0\<close>, and nobody
  queued has a table entry.
\<close>

definition table_ok :: "(int \<rightharpoonup> int) \<Rightarrow> bool" where
  "table_ok m \<longleftrightarrow> (\<forall>a b. m a = Some b \<longrightarrow> m b = Some a \<and> a \<noteq> b \<and> b \<noteq> 0)"

definition reach_inv :: "state \<Rightarrow> bool" where
  "reach_inv s \<longleftrightarrow> table_ok (map_of (sessions s)) \<and> distinct (queue s) \<and> 0 \<notin> set (queue s)
     \<and> (\<forall>u \<in> set (queue s). map_of (sessions s) u = None)"

section \<open>The rate limiter\<close>

text \<open>
  \<open>rate_limited\<close> reads the clock itself (\<^verbatim>\<open>now = time.time()\<close>); the reading is the
  parameter \<open>now\<close>. A timestamp is a finite double and is the real number it denotes.
  \<^verbatim>\<open>RATE_LIMIT = 1.3\<close> is the double nearest to 1.3, which is
  \<open>5854679515581645 / 2^52\<close>. The subtraction \<^verbatim>\<open>now - last\<close> is the subtraction of doubles,
  which rounds; it is the parameter \<open>fsub\<close>, and its result is a finite double or, on
  overflow, an infinity. Comparing doubles is comparing the numbers they denote.
  \<^verbatim>\<open>if last and (now - last) < RATE_LIMIT\<close> tests the truth value of \<open>last\<close> first: \<^verbatim>\<open>None\<close>
  and \<^verbatim>\<open>0.0\<close> are both false.
\<close>

datatype fdiff = Diff real | Overflow_plus | Overflow_minus

definition RATE_LIMIT :: real where
  "RATE_LIMIT = 5854679515581645 / 4503599627370496"

fun below_limit :: "fdiff \<Rightarrow> bool" where
  "below_limit (Diff d) = (d < RATE_LIMIT)"
| "below_limit Overflow_plus = False"
| "below_limit Overflow_minus = True"

definition rate_limited :: "(real \<Rightarrow> real \<Rightarrow> fdiff) \<Rightarrow> int \<Rightarrow> real \<Rightarrow> state \<Rightarrow> bool \<times> state" where
  "rate_limited fsub uid now s =
     (let last = last_time s uid
      in if (case last of None \<Rightarrow> False | Some t \<Rightarrow> t \<noteq> 0 \<and> below_limit (fsub now t))
         then (True, s)
         else (False, s\<lparr>last_time := (last_time s)(uid \<mapsto> now)\<rparr>))"


section \<open>The snapshot: save_state and load_state\<close>

text \<open>
  \<^verbatim>\<open>json.dump\<close> and \<^verbatim>\<open>json.load\<close> are library code. They are taken at the level of the
  Python objects a JSON document stands for: a file is missing, unreadable, not JSON, or
  holds a document. A finite float is the rational number it denotes; \<^verbatim>\<open>NaN\<close> and the
  infinities, which \<^verbatim>\<open>json.load\<close> accepts, are one value. The keys of a \<open>PDict\<close> are
  strings, as the keys of a JSON object are.
\<close>

datatype pyval =
    PNone
  | PBool bool
  | PInt int
  | PFloat rat
  | PNonFinite
  | PStr string
  | PList "pyval list"
  | PDict "(string \<times> pyval) list"

datatype py_error = AttributeError | TypeError | ValueError | OverflowError | JSONDecodeError | OSError

datatype snapshot_file = Missing | Unreadable | Unparseable | Document pyval

text \<open>
  After \<open>load_state\<close> the global \<open>queue\<close> holds whatever object the document has under
  \<^verbatim>\<open>"queue"\<close>, so the loaded queue is a \<open>pyval\<close>; \<open>as_queue\<close> reads it back as a list of
  identifiers where it is one.
\<close>

record snapshot_state =
  loaded_queue :: pyval
  loaded_sessions :: "(int \<times> int) list"

definition empty_snapshot :: snapshot_state where
  "empty_snapshot = \<lparr>loaded_queue = PList [], loaded_sessions = []\<rparr>"

fun as_int :: "pyval \<Rightarrow> int option" where
  "as_int (PInt n) = Some n"
| "as_int _ = None"

definition as_queue :: "pyval \<Rightarrow> int list option" where
  "as_queue v =
     (case v of
        PList xs \<Rightarrow> (if list_all (\<lambda>x. as_int x \<noteq> None) xs then Some (map (\<lambda>x. the (as_int x)) xs) else None)
      | _ \<Rightarrow> None)"

subsection \<open>str and int on identifiers\<close>

text \<open>
  \<^verbatim>\<open>json.dump\<close> writes the \<open>int\<close> keys of \<open>sessions\<close> as their decimal strings, and
  \<open>load_state\<close> converts keys and values back with \<^verbatim>\<open>int()\<close>. \<open>py_str\<close> is \<^verbatim>\<open>str\<close> on an
  \<open>int\<close>. \<open>py_int_str\<close> is \<^verbatim>\<open>int\<close> on an ASCII string: white space around, an optional sign,
  then decimal digits with single underscores allowed between digits. Both are exact on
  unbounded integers: the interpreter's limit on the number of digits of a conversion
  (4300 by default from Python 3.11 on) is not modelled. Python's \<^verbatim>\<open>int\<close> also strips
  Unicode white space and reads Unicode decimal digits; a string with such characters is
  outside \<open>py_int_str\<close>, which rejects it. No digit string that \<open>py_str\<close> writes has one.
\<close>

definition digit_char :: "nat \<Rightarrow> char" where
  "digit_char d = char_of (48 + d)"

fun digits_of :: "nat \<Rightarrow> string" where
  "digits_of n = (if n < 10 then [digit_char n] else digits_of (n div 10) @ [digit_char (n mod 10)])"

definition py_str :: "int \<Rightarrow> string" where
  "py_str n = (if n < 0 then CHR ''-'' # digits_of (nat (- n)) else digits_of (nat n))"

definition is_space :: "char \<Rightarrow> bool" where
  "is_space c \<longleftrightarrow> c \<in> {CHR 0x09, CHR 0x0A, CHR 0x0B, CHR 0x0C, CHR 0x0D, CHR 0x20}"

definition is_digit :: "char \<Rightarrow> bool" where
  "is_digit c \<longleftrightarrow> (48::nat) \<le> of_char c \<and> of_char c \<le> (57::nat)"

definition digit_val :: "char \<Rightarrow> nat" where
  "digit_val c = of_char c - 48"

definition strip :: "string \<Rightarrow> string" where
  "strip s = rev (dropWhile is_space (rev (dropWhile is_space s)))"

fun body_ok :: "string \<Rightarrow> bool" where
  "body_ok [] = False"
| "body_ok [c] = is_digit c"
| "body_ok (c # d # r) =
     (is_digit c \<and> (if d = CHR ''_'' then body_ok r else body_ok (d # r)))"

definition digits_val :: "string \<Rightarrow> nat" where
  "digits_val s = foldl (\<lambda>acc c. if c = CHR ''_'' then acc else 10 * acc + digit_val c) 0 s"

definition py_int_str :: "string \<Rightarrow> py_error + int" where
  "py_int_str s =
     (let t = strip s;
          (neg, body) = (case t of
                           [] \<Rightarrow> (False, [])
                         | c # r \<Rightarrow> if c = CHR ''-'' then (True, r)
                                    else if c = CHR ''+'' then (False, r) else (False, t))
      in if body_ok body
         then Inr (if neg then - int (digits_val body) else int (digits_val body))
         else Inl ValueError)"

text \<open>\<^verbatim>\<open>int(v)\<close> on a JSON value: a float is truncated towards zero.\<close>

fun py_int :: "pyval \<Rightarrow> py_error + int" where
  "py_int PNone = Inl TypeError"
| "py_int (PBool b) = Inr (if b then 1 else 0)"
| "py_int (PInt n) = Inr n"
| "py_int (PFloat q) = Inr (if 0 \<le> q then \<lfloor>q\<rfloor> else \<lceil>q\<rceil>)"
| "py_int PNonFinite = Inl ValueError"
| "py_int (PStr s) = py_int_str s"
| "py_int (PList xs) = Inl TypeError"
| "py_int (PDict d) = Inl TypeError"

subsection \<open>Truth values, len, dict.get\<close>

fun truthy :: "pyval \<Rightarrow> bool" where
  "truthy PNone = False"
| "truthy (PBool b) = b"
| "truthy (PInt n) = (n \<noteq> 0)"
| "truthy (PFloat q) = (q \<noteq> 0)"
| "truthy PNonFinite = True"
| "truthy (PStr s) = (s \<noteq> [])"
| "truthy (PList xs) = (xs \<noteq> [])"
| "truthy (PDict d) = (d \<noteq> [])"

definition py_or :: "pyval \<Rightarrow> pyval \<Rightarrow> pyval" where
  "py_or a b = (if truthy a then a else b)"

fun py_len :: "pyval \<Rightarrow> py_error + nat" where
  "py_len (PStr s) = Inr (length s)"
| "py_len (PList xs) = Inr (length xs)"
| "py_len (PDict d) = Inr (length d)"
| "py_len _ = Inl TypeError"

fun dict_get :: "pyval \<Rightarrow> string \<Rightarrow> pyval \<Rightarrow> py_error + pyval" where
  "dict_get (PDict d) k dflt = Inr (case map_of d k of Some v \<Rightarrow> v | None \<Rightarrow> dflt)"
| "dict_get _ k dflt = Inl AttributeError"

fun dict_items :: "pyval \<Rightarrow> py_error + (string \<times> pyval) list" where
  "dict_items (PDict d) = Inr d"
| "dict_items _ = Inl AttributeError"

text \<open>
  The comprehension \<^verbatim>\<open>{int(k): int(v) for k, v in raw_sessions.items()}\<close>: the items in
  order, a later item overwriting an earlier one with the same integer key, and the first
  \<^verbatim>\<open>int()\<close> that raises ending it.
\<close>

fun int_items :: "(string \<times> pyval) list \<Rightarrow> (int \<times> int) list \<Rightarrow> py_error + (int \<times> int) list" where
  "int_items [] acc = Inr acc"
| "int_items ((k, v) # r) acc =
     (case py_int (PStr k) of
        Inl e \<Rightarrow> Inl e
      | Inr ik \<Rightarrow> (case py_int v of
                     Inl e \<Rightarrow> Inl e
                   | Inr iv \<Rightarrow> int_items r (AList.update ik iv acc)))"

subsection \<open>save_state\<close>

text \<open>
  The object \<^verbatim>\<open>{"queue": queue, "sessions": sessions}\<close> as \<^verbatim>\<open>json.dump\<close> encodes it.
  \<open>save_state\<close> opens the file for writing and dumps; an exception is logged and not
  raised. The outcome of the write is a parameter: a failed \<^verbatim>\<open>open\<close> leaves the old file, a
  write that fails after it leaves a truncated one.
\<close>

definition dump_state :: "state \<Rightarrow> pyval" where
  "dump_state s =
     PDict [(''queue'', PList (map PInt (queue s))),
            (''sessions'', PDict (map (\<lambda>(k, v). (py_str k, PInt v)) (sessions s)))]"

datatype write_outcome = Written | OpenFailed | WriteFailed

definition save_state :: "write_outcome \<Rightarrow> state \<Rightarrow> snapshot_file \<Rightarrow> snapshot_file" where
  "save_state w s f =
     (case w of Written \<Rightarrow> Document (dump_state s) | OpenFailed \<Rightarrow> f | WriteFailed \<Rightarrow> Unparseable)"

subsection \<open>load_state\<close>

text \<open>
  \<open>load_state_try\<close> is the body of the \<^verbatim>\<open>try\<close>, \<open>load_state\<close> adds the handler, which
  catches every \<^verbatim>\<open>Exception\<close> and assigns the empty list and the empty dict. The second
  argument is the value of the two globals before the call. \<^verbatim>\<open>len(queue)\<close> is evaluated for
  the log line and raises on an object without a length.
\<close>

definition load_state_try :: "snapshot_file \<Rightarrow> snapshot_state \<Rightarrow> py_error + snapshot_state" where
  "load_state_try f g =
     (case f of
        Missing \<Rightarrow> Inr g
      | Unreadable \<Rightarrow> Inl OSError
      | Unparseable \<Rightarrow> Inl JSONDecodeError
      | Document data \<Rightarrow>
          (case dict_get data ''queue'' (PList []) of
             Inl e \<Rightarrow> Inl e
           | Inr q0 \<Rightarrow>
               (let q = py_or q0 (PList [])
                in case dict_get data ''sessions'' (PDict []) of
                     Inl e \<Rightarrow> Inl e
                   | Inr r0 \<Rightarrow>
                       (case dict_items (py_or r0 (PDict [])) of
                          Inl e \<Rightarrow> Inl e
                        | Inr items \<Rightarrow>
                            (case int_items items [] of
                               Inl e \<Rightarrow> Inl e
                             | Inr ss \<Rightarrow>
                                 (case py_len q of
                                    Inl e \<Rightarrow> Inl e
                                  | Inr n \<Rightarrow> Inr \<lparr>loaded_queue = q, loaded_sessions = ss\<rparr>))))))"



definition load_state :: "snapshot_file \<Rightarrow> snapshot_state \<Rightarrow> snapshot_state" where
  "load_state f g = (case load_state_try f g of Inl e \<Rightarrow> empty_snapshot | Inr r \<Rightarrow> r)"


section \<open>The handler of messages that are not commands\<close>

text \<open>
  The transport is outside the program. What the handler does to it is the list of calls it
  attempts, in order; whether an attempt raises, and with what text, is given by the
  environment. Of a message the handler reads the text, whether each of the eight
  attachment fields is set, and the two identifiers it passes on. A text sent is the
  UTF-8 bytes of the source's literal; the literal of the prompt opens with three
  characters outside ASCII (U+201A, U+00F9, U+00E5), seven bytes.
\<close>

datatype action =
    Forward_message int int int
  | Copy_message int int int
  | Send_chat_action int
  | Send_message int string

record message =
  msg_text :: "string option"
  photo :: bool
  video :: bool
  audio :: bool
  voice :: bool
  document :: bool
  sticker :: bool
  animation :: bool
  video_note :: bool
  chat_id :: int
  message_id :: int

record update =
  effective_message :: "message option"
  effective_user :: "int option"

record config =
  GROUP_ID :: "int option"
  ADMIN_IDS :: "int list"

record transport =
  raises :: "action \<Rightarrow> bool"
  error_text :: "action \<Rightarrow> string"

definition newline :: string where
  "newline = [CHR 0x0A]"

definition menu_text :: string where
  "menu_text =
     ''Anonymous Bot Activated'' @ newline @ newline @
     ''Commands:'' @ newline @
     ''/anon_start - Find a partner'' @ newline @
     ''/anon_next - Next partner'' @ newline @
     ''/anon_stop - Stop chatting'' @ newline @
     ''/status - Show status'' @ newline"

definition not_connected_text :: string where
  "not_connected_text =
     [CHR 0xE2, CHR 0x80, CHR 0x9A, CHR 0xC3, CHR 0xB9, CHR 0xC3, CHR 0xA5] @
     '' You are not connected to a partner. Use /anon_start''"

text \<open>\<open>send_menu\<close> swallows a failure of its one call.\<close>

definition send_menu :: "int \<Rightarrow> action list" where
  "send_menu chat = [Send_message chat menu_text]"

text \<open>
  \<open>notify_admins\<close> tries every administrator; a failure with one does not stop the loop.
\<close>

definition notify_admins :: "config \<Rightarrow> string \<Rightarrow> action list" where
  "notify_admins cfg txt = map (\<lambda>adm. Send_message adm (''[ADMIN] '' @ txt)) (ADMIN_IDS cfg)"

text \<open>\<^verbatim>\<open>msg.text and msg.text.startswith("/")\<close>\<close>

definition is_command_text :: "message \<Rightarrow> bool" where
  "is_command_text msg =
     (case msg_text msg of None \<Rightarrow> False | Some t \<Rightarrow> (case t of [] \<Rightarrow> False | c # r \<Rightarrow> c = CHR ''/''))"

definition has_attachment :: "message \<Rightarrow> bool" where
  "has_attachment msg \<longleftrightarrow>
     photo msg \<or> video msg \<or> audio msg \<or> voice msg \<or> document msg \<or> sticker msg \<or>
     animation msg \<or> video_note msg"

text \<open>Step 1: \<^verbatim>\<open>if GROUP_ID and has_attachment\<close>, the forward and what follows its failure.\<close>

definition mirror :: "config \<Rightarrow> transport \<Rightarrow> message \<Rightarrow> action list" where
  "mirror cfg tr msg =
     (case GROUP_ID cfg of
        None \<Rightarrow> []
      | Some g \<Rightarrow>
          if g \<noteq> 0 \<and> has_attachment msg
          then (let fwd = Forward_message g (chat_id msg) (message_id msg)
                in fwd # (if raises tr fwd
                          then notify_admins cfg (''Group forward failed: '' @ error_text tr fwd)
                          else []))
          else [])"

text \<open>Steps 2 and 3, for the sender \<open>uid\<close>.\<close>

definition relay_or_prompt ::
  "config \<Rightarrow> transport \<Rightarrow> (real \<Rightarrow> real \<Rightarrow> fdiff) \<Rightarrow> real \<Rightarrow> int \<Rightarrow> message \<Rightarrow> state
     \<Rightarrow> state \<times> action list" where
  "relay_or_prompt cfg tr fsub now uid msg s =
     (if map_of (sessions s) uid \<noteq> None
      then (let (limited, s1) = rate_limited fsub uid now s
            in if limited then (s1, [Send_chat_action uid])
               else (case map_of (sessions s1) uid of
                       None \<Rightarrow> (s1, [])
                     | Some partner \<Rightarrow>
                         if partner \<noteq> 0
                         then (let cp = Copy_message partner (chat_id msg) (message_id msg)
                               in (s1, cp # (if raises tr cp
                                             then notify_admins cfg (''Relay failed: '' @ error_text tr cp)
                                             else [])))
                         else (s1, [])))
      else (let prompt = Send_message uid not_connected_text
            in (s, prompt # (if raises tr prompt then [] else send_menu uid))))"

text \<open>
  The handler. \<^verbatim>\<open>update.effective_user.id\<close> is read before the command test and raises
  when the update has no user.
\<close>

definition handle_all_messages ::
  "config \<Rightarrow> transport \<Rightarrow> (real \<Rightarrow> real \<Rightarrow> fdiff) \<Rightarrow> real \<Rightarrow> update \<Rightarrow> state
     \<Rightarrow> py_error + state \<times> action list" where
  "handle_all_messages cfg tr fsub now upd s =
     (case effective_message upd of
        None \<Rightarrow> Inr (s, [])
      | Some msg \<Rightarrow>
          (case effective_user upd of
             None \<Rightarrow> Inl AttributeError
           | Some uid \<Rightarrow>
               if is_command_text msg then Inr (s, [])
               else (let (s1, acts) = relay_or_prompt cfg tr fsub now uid msg s
                     in Inr (s1, mirror cfg tr msg @ acts))))"

section \<open>The matchmaker: invariants, FIFO, idempotence\<close>

text \<open>
  \<open>table_ok\<close> is kept by the three ways the functions change the table.
\<close>

lemma table_okD:
  "table_ok m \<Longrightarrow> m a = Some b \<Longrightarrow> m b = Some a \<and> a \<noteq> b \<and> b \<noteq> 0 \<and> a \<noteq> 0"
  unfolding table_ok_def by blast

lemma table_okI:
  "(\<And>a b. m a = Some b \<Longrightarrow> m b = Some a \<and> a \<noteq> b \<and> b \<noteq> 0) \<Longrightarrow> table_ok m"
  unfolding table_ok_def by blast

lemma table_ok_unpair_none:
  assumes "table_ok m" "m a = None" shows "table_ok (m(a := None))"
proof (rule table_okI)
  fix x y assume h: "(m(a := None)) x = Some y"
  then have xa: "x \<noteq> a" and mx: "m x = Some y" by (auto split: if_splits)
  from table_okD[OF assms(1) mx] assms(2) have "y \<noteq> a" by auto
  with table_okD[OF assms(1) mx] show "(m(a := None)) y = Some x \<and> x \<noteq> y \<and> y \<noteq> 0" by simp
qed

lemma table_ok_unpair:
  assumes "table_ok m" "m a = Some b" shows "table_ok (m(a := None, b := None))"
proof (rule table_okI)
  fix x y assume h: "(m(a := None, b := None)) x = Some y"
  then have xa: "x \<noteq> a" "x \<noteq> b" and mx: "m x = Some y" by (auto split: if_splits)
  note d = table_okD[OF assms(1) mx] table_okD[OF assms(1) assms(2)]
  from d xa assms(2) have "y \<noteq> a" "y \<noteq> b" by auto
  with d show "(m(a := None, b := None)) y = Some x \<and> x \<noteq> y \<and> y \<noteq> 0" by simp
qed

lemma table_ok_pair:
  assumes "table_ok m" "m a = None" "m b = None" "a \<noteq> b" "a \<noteq> 0" "b \<noteq> 0"
  shows "table_ok (m(a \<mapsto> b, b \<mapsto> a))"
proof (rule table_okI)
  fix x y assume h: "(m(a \<mapsto> b, b \<mapsto> a)) x = Some y"
  show "(m(a \<mapsto> b, b \<mapsto> a)) y = Some x \<and> x \<noteq> y \<and> y \<noteq> 0"
  proof (cases "x = a \<or> x = b")
    case True
    with h assms show ?thesis by (auto split: if_splits)
  next
    case False
    with h have mx: "m x = Some y" by simp
    from table_okD[OF assms(1) mx] assms(2,3) have "y \<noteq> a" "y \<noteq> b" by auto
    with table_okD[OF assms(1) mx] show ?thesis by simp
  qed
qed


text \<open>
  What \<open>unpair\<close> does to the table: the reverse entry goes only when the partner is
  not \<open>0\<close>.
\<close>

lemma map_of_unpair:
  "map_of (sessions (snd (unpair uid s))) =
     (case map_of (sessions s) uid of
        None \<Rightarrow> (map_of (sessions s))(uid := None)
      | Some b \<Rightarrow> if b = 0 then (map_of (sessions s))(uid := None)
                  else (map_of (sessions s))(uid := None, b := None))"
  by (simp add: unpair_def Let_def delete_conv' split: option.splits)

lemma queue_unpair: "queue (snd (unpair uid s)) = queue s"
  by (simp add: unpair_def Let_def)

lemma reach_inv_unpair:
  assumes "reach_inv s" shows "reach_inv (snd (unpair uid s))"
proof (cases "map_of (sessions s) uid")
  case None
  with assms show ?thesis
    by (simp add: reach_inv_def map_of_unpair queue_unpair table_ok_unpair_none)
next
  case (Some b)
  with assms have "b \<noteq> 0" by (auto simp: reach_inv_def dest: table_okD)
  with Some assms show ?thesis
    by (simp add: reach_inv_def map_of_unpair queue_unpair table_ok_unpair)
qed

lemma reach_inv_remove1:
  "reach_inv s \<Longrightarrow> reach_inv (s\<lparr>queue := remove1 u (queue s)\<rparr>)"
  by (auto simp: reach_inv_def dest: notin_set_remove1)

lemma cmd_anon_stop_snd:
  "snd (cmd_anon_stop uid s) =
     (let s1 = snd (unpair uid s)
      in if uid \<in> set (queue s1) then s1\<lparr>queue := remove1 uid (queue s1)\<rparr> else s1)"
  by (simp add: cmd_anon_stop_def Let_def split: prod.splits)

lemma reach_inv_stop: "reach_inv s \<Longrightarrow> reach_inv (snd (cmd_anon_stop uid s))"
  by (simp add: cmd_anon_stop_snd Let_def reach_inv_unpair reach_inv_remove1)

lemma reach_inv_find:
  assumes "reach_inv s" "uid \<noteq> 0" shows "reach_inv (snd (find_partner uid s))"
proof (cases "map_of (sessions s) uid")
  case (Some p)
  with assms show ?thesis by (simp add: find_partner_def)
next
  case None
  define q where "q = (if uid \<in> set (queue s) then remove1 uid (queue s) else queue s)"
  have q: "distinct q" "0 \<notin> set q" "uid \<notin> set q" "set q \<subseteq> set (queue s)"
    using assms(1) by (auto simp: q_def reach_inv_def dest: notin_set_remove1)
  show ?thesis
  proof (cases q)
    case Nil
    with None assms q show ?thesis
      by (simp add: find_partner_def q_def[symmetric] reach_inv_def)
  next
    case (Cons other rest)
    with q assms(1) have o: "other \<noteq> 0" "other \<noteq> uid" "map_of (sessions s) other = None"
      "other \<notin> set rest" "uid \<notin> set rest" "distinct rest" "0 \<notin> set rest"
      "\<forall>u \<in> set rest. map_of (sessions s) u = None"
      by (auto simp: reach_inv_def)
    have t: "table_ok ((map_of (sessions s))(uid \<mapsto> other, other \<mapsto> uid))"
      using assms None o by (intro table_ok_pair) (auto simp: reach_inv_def)
    from None Cons o t show ?thesis
      by (auto simp add: find_partner_def q_def[symmetric] reach_inv_def pair_def update_conv')
  qed
qed


lemma run_calls_snd_Cons:
  "snd (run_calls (c # cs) s) = snd (run_calls cs (snd (do_call c s)))"
  by (simp add: split_beta)

lemma run_calls_fst_Cons:
  "fst (run_calls (c # cs) s) = fst (do_call c s) # fst (run_calls cs (snd (do_call c s)))"
  by (simp add: split_beta)

lemma reach_inv_do_call: "reach_inv s \<Longrightarrow> caller c \<noteq> 0 \<Longrightarrow> reach_inv (snd (do_call c s))"
  by (cases c) (simp_all add: reach_inv_find reach_inv_stop)

lemma reach_inv_run_calls:
  "reach_inv s \<Longrightarrow> \<forall>c \<in> set cs. caller c \<noteq> 0 \<Longrightarrow> reach_inv (snd (run_calls cs s))"
proof (induction cs arbitrary: s)
  case Nil
  then show ?case by simp
next
  case (Cons c cs)
  then show ?case by (simp only: run_calls_snd_Cons) (simp add: reach_inv_do_call)
qed

lemma reach_inv_empty: "reach_inv empty_state"
  by (simp add: reach_inv_def empty_state_def table_ok_def)

lemma reach_inv_claims:
  "reach_inv s \<Longrightarrow> symmetric s \<and> irreflexive s \<and> queue_table_disjoint s"
  by (auto simp: reach_inv_def symmetric_def irreflexive_def queue_table_disjoint_def dest: table_okD)

text \<open>
  With callers other than \<open>0\<close> the three invariants hold after every sequence of
  calls from the empty state.
\<close>

lemma invariants_nonzero_callers:
  "\<forall>c \<in> set cs. caller c \<noteq> 0 \<Longrightarrow>
   symmetric (snd (run_calls cs empty_state)) \<and> irreflexive (snd (run_calls cs empty_state))
   \<and> queue_table_disjoint (snd (run_calls cs empty_state))"
  by (intro reach_inv_claims reach_inv_run_calls reach_inv_empty)

text \<open>
  Claim C1: after every sequence of \<open>requestPartner\<close> and \<open>endSession\<close> calls from the
  empty state, for every choice of identifiers (including \<open>0\<close>), the Pairing Table is
  symmetric and irreflexive and disjoint from the queue. The code breaks symmetry when the
  identifier \<open>0\<close> takes part: user \<open>0\<close> asks for a partner, user \<open>1\<close> asks for a partner and
  is paired with \<open>0\<close>, user \<open>1\<close> ends the session. \<open>unpair\<close> pops the entry of \<open>1\<close>, finds the
  partner \<open>0\<close> false in \<^verbatim>\<open>if other:\<close> and leaves the reverse entry: the table is \<open>{0: 1}\<close>,
  where \<open>0\<close> maps to \<open>1\<close> and \<open>1\<close> maps to nothing.
\<close>

theorem unpair_partner_zero_keeps_reverse_entry:
  "run_calls [RequestPartner 0, RequestPartner 1, EndSession 1] empty_state =
     ([None, Some 0, Some 0], \<lparr>queue = [], sessions = [(0, 1)], last_time = Map.empty\<rparr>)
   \<and> map_of (sessions (snd (run_calls [RequestPartner 0, RequestPartner 1, EndSession 1] empty_state))) 0 = Some 1
   \<and> map_of (sessions (snd (run_calls [RequestPartner 0, RequestPartner 1, EndSession 1] empty_state))) 1 = None"
  by (simp add: empty_state_def find_partner_def cmd_anon_stop_def unpair_def pair_def Let_def)

text \<open>
  Claim C8: if \<open>u\<close> has a partner in the Pairing Table, \<open>find_partner u\<close> returns that
  partner and leaves the queue and the table (the whole state) unchanged, and two calls
  in succession return the same partner both times.
\<close>

theorem find_partner_idempotent:
  "map_of (sessions s) u = Some p \<Longrightarrow>
     find_partner u s = (Some p, s) \<and>
     run_calls [RequestPartner u, RequestPartner u] s = ([Some p, Some p], s)"
  by (simp add: find_partner_def)

text \<open>
  Claim C8 at a state where user \<open>1\<close> is paired with user \<open>2\<close> and user \<open>5\<close> waits.
\<close>

theorem find_partner_idempotent_witness:
  "map_of (sessions \<lparr>queue = [5], sessions = [(1, 2), (2, 1)], last_time = Map.empty\<rparr>) 1 = Some 2
   \<and> find_partner 1 \<lparr>queue = [5], sessions = [(1, 2), (2, 1)], last_time = Map.empty\<rparr>
       = (Some 2, \<lparr>queue = [5], sessions = [(1, 2), (2, 1)], last_time = Map.empty\<rparr>)
   \<and> run_calls [RequestPartner 1, RequestPartner 1] \<lparr>queue = [5], sessions = [(1, 2), (2, 1)], last_time = Map.empty\<rparr>
       = ([Some 2, Some 2], \<lparr>queue = [5], sessions = [(1, 2), (2, 1)], last_time = Map.empty\<rparr>)"
  using find_partner_idempotent [of "\<lparr>queue = [5], sessions = [(1, 2), (2, 1)], last_time = Map.empty\<rparr>" 1 2]
  by simp


text \<open>
  A caller with no partner who is not queued is paired with the head of a non-empty
  queue; entries of the table under other keys are not touched.
\<close>

lemma find_partner_head:
  assumes "map_of (sessions s) u = None" "u \<notin> set (queue s)" "queue s = a # rest"
  shows "find_partner u s = (Some a, pair u a (s\<lparr>queue := rest\<rparr>))"
  using assms by (simp add: find_partner_def)

lemma find_partner_table_frame:
  assumes "k \<noteq> u" "k \<notin> set (queue s)"
  shows "map_of (sessions (snd (find_partner u s))) k = map_of (sessions s) k
         \<and> k \<notin> set (queue (snd (find_partner u s)))"
proof (cases "map_of (sessions s) u")
  case (Some p)
  with assms show ?thesis by (simp add: find_partner_def)
next
  case None
  define q where "q = (if u \<in> set (queue s) then remove1 u (queue s) else queue s)"
  have q: "k \<notin> set q" using assms by (auto simp: q_def dest: notin_set_remove1)
  show ?thesis
  proof (cases q)
    case Nil
    with None assms show ?thesis by (simp add: find_partner_def q_def[symmetric])
  next
    case (Cons other rest)
    with q have "k \<noteq> other" "k \<notin> set rest" by auto
    with None Cons assms show ?thesis
      by (simp add: find_partner_def q_def[symmetric] pair_def update_conv')
  qed
qed

lemma requests_table_frame:
  "k \<notin> set cs \<Longrightarrow> k \<notin> set (queue s) \<Longrightarrow>
   map_of (sessions (snd (run_calls (map RequestPartner cs) s))) k = map_of (sessions s) k"
proof (induction cs arbitrary: s)
  case Nil
  then show ?case by simp
next
  case (Cons c cs)
  from Cons.prems have k: "k \<noteq> c" "k \<notin> set cs" by auto
  from find_partner_table_frame[OF k(1) Cons.prems(2)]
  have f: "map_of (sessions (snd (find_partner c s))) k = map_of (sessions s) k"
    "k \<notin> set (queue (snd (find_partner c s)))" by auto
  show ?case
    using Cons.IH[OF k(2) f(2)] f(1) by (simp add: split_beta)
qed

text \<open>
  Claim C2: matching is strictly FIFO. Callers \<open>cs\<close>, one after the other, each with no
  partner and not in the queue, no more of them than users waiting, are matched with the
  users of the queue in queue order: the \<open>i\<close>-th caller gets the \<open>i\<close>-th longest-waiting
  user and is paired with it (and, the queue having no duplicates, that user with the
  caller), and the users behind stay queued in their order. With one
  caller this is the match with the head of the queue; a user who is ahead of another in
  the queue is matched before it.
\<close>

theorem find_partner_fifo:
  assumes "distinct cs"
    and "\<forall>c \<in> set cs. c \<notin> set (queue s) \<and> map_of (sessions s) c = None"
    and "length cs \<le> length (queue s)"
  shows "fst (run_calls (map RequestPartner cs) s) = map Some (take (length cs) (queue s))
       \<and> queue (snd (run_calls (map RequestPartner cs) s)) = drop (length cs) (queue s)
       \<and> map (map_of (sessions (snd (run_calls (map RequestPartner cs) s)))) cs
           = map Some (take (length cs) (queue s))
       \<and> (distinct (queue s) \<longrightarrow>
            map (map_of (sessions (snd (run_calls (map RequestPartner cs) s)))) (take (length cs) (queue s))
              = map Some cs)"
  using assms
proof (induction cs arbitrary: s)
  case Nil
  then show ?case by simp
next
  case (Cons c cs)
  from Cons.prems(3) obtain a rest where q: "queue s = a # rest" by (cases "queue s") auto
  from Cons.prems(2) have c: "map_of (sessions s) c = None" "c \<notin> set (queue s)" by auto
  define s1 where "s1 = pair c a (s\<lparr>queue := rest\<rparr>)"
  have step: "find_partner c s = (Some a, s1)"
    unfolding s1_def by (rule find_partner_head[OF c q])
  have s1: "queue s1 = rest" "map_of (sessions s1) = (map_of (sessions s))(c \<mapsto> a, a \<mapsto> c)"
    by (simp_all add: s1_def pair_def update_conv')
  have p1: "distinct cs" using Cons.prems(1) by simp
  have p2: "\<forall>x \<in> set cs. x \<notin> set (queue s1) \<and> map_of (sessions s1) x = None"
    using Cons.prems(1,2) q by (auto simp: s1)
  have p3: "length cs \<le> length (queue s1)" using Cons.prems(3) q by (simp add: s1)
  note ih = Cons.IH[OF p1 p2 p3]
  have "c \<notin> set cs" "c \<notin> set (queue s1)" using Cons.prems(1) c q by (auto simp: s1)
  then have "map_of (sessions (snd (run_calls (map RequestPartner cs) s1))) c = map_of (sessions s1) c"
    by (rule requests_table_frame)
  also have "\<dots> = Some a" using c q by (auto simp: s1)
  finally have pc: "map_of (sessions (snd (run_calls (map RequestPartner cs) s1))) c = Some a" .
  have pa: "map_of (sessions (snd (run_calls (map RequestPartner cs) s1))) a = Some c"
    if d: "distinct (queue s)"
  proof -
    have "a \<notin> set cs" "a \<notin> set (queue s1)" using Cons.prems(2) q d by (auto simp: s1)
    then have "map_of (sessions (snd (run_calls (map RequestPartner cs) s1))) a = map_of (sessions s1) a"
      by (rule requests_table_frame)
    then show ?thesis by (simp add: s1)
  qed
  have dr: "distinct (queue s) \<Longrightarrow> distinct (queue s1)" using q by (simp add: s1)
  show ?case using ih pc pa dr by (simp add: step split_beta q s1)
qed

text \<open>
  Claim C2 at the queue \<open>[1, 2, 3]\<close> with the callers \<open>7\<close> and \<open>8\<close>.
\<close>

theorem find_partner_fifo_witness:
  "distinct [7, 8::int]
   \<and> 7 \<notin> set (queue \<lparr>queue = [1, 2, 3], sessions = [], last_time = Map.empty\<rparr>)
   \<and> 8 \<notin> set (queue \<lparr>queue = [1, 2, 3], sessions = [], last_time = Map.empty\<rparr>)
   \<and> map_of (sessions \<lparr>queue = [1, 2, 3], sessions = [], last_time = Map.empty\<rparr>) 7 = None
   \<and> map_of (sessions \<lparr>queue = [1, 2, 3], sessions = [], last_time = Map.empty\<rparr>) 8 = None
   \<and> length [7, 8::int] \<le> length (queue \<lparr>queue = [1, 2, 3], sessions = [], last_time = Map.empty\<rparr>)
   \<and> fst (run_calls (map RequestPartner [7, 8]) \<lparr>queue = [1, 2, 3], sessions = [], last_time = Map.empty\<rparr>)
       = [Some 1, Some 2]
   \<and> queue (snd (run_calls (map RequestPartner [7, 8]) \<lparr>queue = [1, 2, 3], sessions = [], last_time = Map.empty\<rparr>))
       = [3]
   \<and> map (map_of (sessions (snd (run_calls (map RequestPartner [7, 8])
              \<lparr>queue = [1, 2, 3], sessions = [], last_time = Map.empty\<rparr>)))) [7, 8]
       = [Some 1, Some 2]
   \<and> map (map_of (sessions (snd (run_calls (map RequestPartner [7, 8])
              \<lparr>queue = [1, 2, 3], sessions = [], last_time = Map.empty\<rparr>)))) [1, 2]
       = [Some 7, Some 8]"
  using find_partner_fifo [of "[7, 8]" "\<lparr>queue = [1, 2, 3], sessions = [], last_time = Map.empty\<rparr>"]
  by simp

text \<open>
  In a state that satisfies the invariant (so without the partner \<open>0\<close>) ending the session
  of \<open>u\<close> returns the partner, removes both entries, removes \<open>u\<close> from the queue, and
  leaves neither of the two paired or queued.
\<close>

lemma cmd_anon_stop_reach_inv:
  assumes "reach_inv s"
  shows "fst (cmd_anon_stop u s) = map_of (sessions s) u
       \<and> map_of (sessions (snd (cmd_anon_stop u s))) =
           (case map_of (sessions s) u of
              None \<Rightarrow> map_of (sessions s)
            | Some p \<Rightarrow> (map_of (sessions s))(u := None, p := None))
       \<and> queue (snd (cmd_anon_stop u s)) = remove1 u (queue s)
       \<and> u \<notin> set (queue (snd (cmd_anon_stop u s)))
       \<and> map_of (sessions (snd (cmd_anon_stop u s))) u = None
       \<and> (\<forall>p. map_of (sessions s) u = Some p \<longrightarrow>
              p \<notin> set (queue (snd (cmd_anon_stop u s)))
              \<and> map_of (sessions (snd (cmd_anon_stop u s))) p = None)"
proof -
  have fst: "fst (cmd_anon_stop u s) = map_of (sessions s) u"
    by (simp add: cmd_anon_stop_def unpair_def Let_def)
  have q: "queue (snd (cmd_anon_stop u s)) = remove1 u (queue s)"
    by (simp add: cmd_anon_stop_snd Let_def queue_unpair remove1_idem)
  have m: "map_of (sessions (snd (cmd_anon_stop u s))) = map_of (sessions (snd (unpair u s)))"
    by (simp add: cmd_anon_stop_snd Let_def)
  from assms have d: "distinct (queue s)" by (simp add: reach_inv_def)
  show ?thesis
  proof (cases "map_of (sessions s) u")
    case None
    then have "(map_of (sessions s))(u := None) = map_of (sessions s)" by auto
    with None d show ?thesis by (simp add: fst q m map_of_unpair)
  next
    case (Some p)
    with assms have p: "p \<noteq> 0" "p \<notin> set (queue s)"
      by (auto simp: reach_inv_def dest: table_okD)
    then have "p \<notin> set (remove1 u (queue s))" by (auto dest: notin_set_remove1)
    with Some p d show ?thesis by (simp add: fst q m map_of_unpair)
  qed
qed

text \<open>
  Claim C3: \<open>endSession(U)\<close> removes the entry of \<open>U\<close> and the reverse entry, returns the
  former partner, removes \<open>U\<close> from the queue, and afterwards neither \<open>U\<close> nor the former
  partner is paired or queued. The code leaves the reverse entry when the partner is \<open>0\<close>:
  in the state reached by users \<open>0\<close> and \<open>1\<close> asking for a partner in turn, ending the
  session of \<open>1\<close> returns \<open>0\<close> and leaves \<open>{0: 1}\<close>, so that \<open>0\<close> is still paired.
\<close>

theorem cmd_anon_stop_partner_zero:
  "cmd_anon_stop 1 \<lparr>queue = [], sessions = [(1, 0), (0, 1)], last_time = Map.empty\<rparr>
     = (Some 0, \<lparr>queue = [], sessions = [(0, 1)], last_time = Map.empty\<rparr>)
   \<and> snd (run_calls [RequestPartner 0, RequestPartner 1] empty_state)
     = \<lparr>queue = [], sessions = [(1, 0), (0, 1)], last_time = Map.empty\<rparr>"
  by (simp add: empty_state_def find_partner_def cmd_anon_stop_def unpair_def pair_def Let_def)

section \<open>The snapshot round trip\<close>

text \<open>
  \<^verbatim>\<open>int(str(n)) == n\<close>: the digits \<open>py_str\<close> writes are read back by \<open>py_int_str\<close>.
\<close>

lemma of_char_digit_char: "d < 10 \<Longrightarrow> (of_char (digit_char d) :: nat) = 48 + d"
  by (simp add: digit_char_def)

lemma is_digit_digit_char: "d < 10 \<Longrightarrow> is_digit (digit_char d)"
  by (simp add: is_digit_def of_char_digit_char)

lemma digit_val_digit_char: "d < 10 \<Longrightarrow> digit_val (digit_char d) = d"
  by (simp add: digit_val_def of_char_digit_char)

lemma is_digit_not_special:
  "is_digit c \<Longrightarrow> \<not> is_space c \<and> c \<noteq> CHR ''_'' \<and> c \<noteq> CHR ''-'' \<and> c \<noteq> CHR ''+''"
  by (auto simp: is_digit_def is_space_def)

lemma digit_char_not_underscore: "d < 10 \<Longrightarrow> digit_char d \<noteq> CHR ''_''"
  using is_digit_not_special[OF is_digit_digit_char[of d]] by simp

declare digits_of.simps [simp del]

lemma digits_of_all_digits: "list_all is_digit (digits_of n)"
proof (induction n rule: digits_of.induct)
  case (1 n)
  show ?case
  proof (cases "n < 10")
    case True
    then show ?thesis by (subst digits_of.simps) (simp add: is_digit_digit_char)
  next
    case False
    with 1 show ?thesis by (subst digits_of.simps) (simp add: is_digit_digit_char)
  qed
qed

lemma digits_of_nonempty: "digits_of n \<noteq> []"
  by (subst digits_of.simps) simp

lemma digits_val_snoc:
  "c \<noteq> CHR ''_'' \<Longrightarrow> digits_val (s @ [c]) = 10 * digits_val s + digit_val c"
  by (simp add: digits_val_def)

lemma digits_val_digits_of: "digits_val (digits_of n) = n"
proof (induction n rule: digits_of.induct)
  case (1 n)
  show ?case
  proof (cases "n < 10")
    case True
    then show ?thesis
      by (subst digits_of.simps) (simp add: digits_val_def digit_val_digit_char digit_char_not_underscore)
  next
    case False
    have "digit_char (n mod 10) \<noteq> CHR ''_''"
      using is_digit_not_special[OF is_digit_digit_char[of "n mod 10"]] by simp
    with False 1 show ?thesis
      by (subst digits_of.simps) (simp add: digits_val_snoc digit_val_digit_char)
  qed
qed

lemma body_ok_all_digits: "list_all is_digit s \<Longrightarrow> s \<noteq> [] \<Longrightarrow> body_ok s"
proof (induction s rule: body_ok.induct)
  case 1
  then show ?case by simp
next
  case (2 c)
  then show ?case by simp
next
  case (3 c d r)
  then have "d \<noteq> CHR ''_''" using is_digit_not_special[of d] by simp
  with 3 show ?case by simp
qed

lemma strip_id:
  assumes "s \<noteq> []" "\<not> is_space (hd s)" "\<not> is_space (last s)"
  shows "strip s = s"
proof -
  from assms have "dropWhile is_space s = s" by (cases s) auto
  moreover from assms have "dropWhile is_space (rev s) = rev s"
    by (cases "rev s") (auto simp: hd_rev)
  ultimately show ?thesis by (simp add: strip_def)
qed


lemma hd_digits_of: "is_digit (hd (digits_of n))"
  using digits_of_all_digits[of n] digits_of_nonempty[of n]
  by (cases "digits_of n") simp_all

lemma last_digits_of: "is_digit (last (digits_of n))"
  using digits_of_all_digits[of n] digits_of_nonempty[of n]
  by (metis last_in_set list_all_iff)

lemma py_int_str_digits: "py_int_str (digits_of n) = Inr (int n)"
proof -
  obtain c r where cr: "digits_of n = c # r" using digits_of_nonempty[of n] by (cases "digits_of n") auto
  have c: "is_digit c" using hd_digits_of[of n] cr by simp
  have s: "strip (digits_of n) = digits_of n"
    using is_digit_not_special[OF hd_digits_of[of n]] is_digit_not_special[OF last_digits_of[of n]]
    by (intro strip_id digits_of_nonempty) simp_all
  have b: "body_ok (digits_of n)" by (rule body_ok_all_digits[OF digits_of_all_digits digits_of_nonempty])
  have "py_int_str (c # r) = Inr (int (digits_val (c # r)))"
    using is_digit_not_special[OF c] b s unfolding cr by (simp add: py_int_str_def)
  then show ?thesis using digits_val_digits_of[of n] by (simp add: cr)
qed

lemma py_int_str_neg_digits: "py_int_str (CHR ''-'' # digits_of n) = Inr (- int n)"
proof -
  have s: "strip (CHR ''-'' # digits_of n) = CHR ''-'' # digits_of n"
    using is_digit_not_special[OF last_digits_of[of n]] digits_of_nonempty[of n]
    by (intro strip_id) (simp_all add: is_space_def)
  have b: "body_ok (digits_of n)" by (rule body_ok_all_digits[OF digits_of_all_digits digits_of_nonempty])
  show ?thesis using b by (simp add: py_int_str_def s digits_val_digits_of)
qed

lemma py_int_str_py_str: "py_int_str (py_str n) = Inr n"
  by (simp add: py_str_def py_int_str_digits py_int_str_neg_digits)

text \<open>
  Rebuilding a dict with distinct keys entry by entry gives the same dict.
\<close>

lemma update_fresh: "k \<notin> fst ` set al \<Longrightarrow> AList.update k v al = al @ [(k, v)]"
  by (induction al) auto

lemma fold_update_distinct:
  "distinct (map fst (acc @ ss)) \<Longrightarrow> fold (\<lambda>(k, v). AList.update k v) ss acc = acc @ ss"
proof (induction ss arbitrary: acc)
  case Nil
  then show ?case by simp
next
  case (Cons x ss)
  obtain k v where x: "x = (k, v)" by (cases x)
  from Cons.prems x have "k \<notin> fst ` set acc" by auto
  then have u: "AList.update k v acc = acc @ [(k, v)]" by (rule update_fresh)
  from Cons.prems x have "distinct (map fst ((acc @ [(k, v)]) @ ss))" by simp
  from Cons.IH[OF this] show ?case by (simp add: x u)
qed

lemma int_items_dump:
  "int_items (map (\<lambda>(k, v). (py_str k, PInt v)) ss) acc = Inr (fold (\<lambda>(k, v). AList.update k v) ss acc)"
  by (induction ss arbitrary: acc) (auto simp: py_int_str_py_str)

lemma as_queue_ints: "as_queue (PList (map PInt q)) = Some q"
  by (simp add: as_queue_def list_all_iff comp_def)

text \<open>
  Claim C4: \<open>save_state\<close> followed by \<open>load_state\<close> reproduces the queue and the Pairing
  Table, for every queue and every table (a dict: its keys are distinct), whatever the
  file held before and whatever the globals of the loading instance hold. The dict comes
  back entry by entry in the same order, and the loaded queue is the list of the same
  identifiers.
\<close>

theorem save_load_roundtrip:
  assumes "distinct (map fst (sessions s))"
  shows "load_state (save_state Written s f) g
           = \<lparr>loaded_queue = PList (map PInt (queue s)), loaded_sessions = sessions s\<rparr>
       \<and> as_queue (loaded_queue (load_state (save_state Written s f) g)) = Some (queue s)"
proof -
  have i: "int_items (map (\<lambda>(k, v). (py_str k, PInt v)) (sessions s)) [] = Inr (sessions s)"
    using fold_update_distinct[of "[]" "sessions s"] assms by (simp add: int_items_dump)
  have l: "load_state (save_state Written s f) g
           = \<lparr>loaded_queue = PList (map PInt (queue s)), loaded_sessions = sessions s\<rparr>"
    by (simp add: load_state_def load_state_try_def save_state_def dump_state_def py_or_def i)
  show ?thesis by (simp add: l as_queue_ints)
qed

text \<open>
  Claim C4 at a queue with a negative identifier and a table with one pairing.
\<close>

theorem save_load_roundtrip_witness:
  "distinct (map fst (sessions \<lparr>queue = [5, -3], sessions = [(1, 20), (20, 1)], last_time = Map.empty\<rparr>))
   \<and> load_state (save_state Written \<lparr>queue = [5, -3], sessions = [(1, 20), (20, 1)], last_time = Map.empty\<rparr> Missing)
        empty_snapshot
      = \<lparr>loaded_queue = PList [PInt 5, PInt (-3)], loaded_sessions = [(1, 20), (20, 1)]\<rparr>"
  using save_load_roundtrip [of "\<lparr>queue = [5, -3], sessions = [(1, 20), (20, 1)], last_time = Map.empty\<rparr>" Missing empty_snapshot]
  by simp

section \<open>What load_state accepts\<close>







section \<open>The rate limiter and the handler\<close>








text \<open>
  Claim C10: for a message whose text begins with \<open>/\<close> the handler returns at once:
  no call to the transport (no mirror, no relay, no prompt) and the state, with the queue,
  the table and the ledger, unchanged. The sender is read before the test, so the update
  has one.
\<close>

theorem command_text_ignored:
  assumes "effective_message upd = Some msg" and "effective_user upd = Some uid"
    and "msg_text msg = Some (CHR ''/'' # t)"
  shows "handle_all_messages cfg tr fsub now upd s = Inr (s, [])"
  using assms by (simp add: handle_all_messages_def is_command_text_def)

text \<open>
  Claim C10 at a paired sender, a configured group and a text \<^verbatim>\<open>/hello\<close> with a photo.
\<close>

theorem command_text_ignored_witness:
  "handle_all_messages \<lparr>GROUP_ID = Some (-100), ADMIN_IDS = [9]\<rparr>
      \<lparr>raises = (\<lambda>a. False), error_text = (\<lambda>a. [])\<rparr> (\<lambda>a b. Diff (a - b)) 5
      \<lparr>effective_message = Some \<lparr>msg_text = Some ''/hello'', photo = True, video = False, audio = False,
          voice = False, document = False, sticker = False, animation = False, video_note = False,
          chat_id = 1, message_id = 44\<rparr>, effective_user = Some 1\<rparr>
      \<lparr>queue = [3], sessions = [(1, 2), (2, 1)], last_time = Map.empty\<rparr>
    = Inr (\<lparr>queue = [3], sessions = [(1, 2), (2, 1)], last_time = Map.empty\<rparr>, [])"
  using command_text_ignored [of
      "\<lparr>effective_message = Some \<lparr>msg_text = Some ''/hello'', photo = True, video = False, audio = False,
          voice = False, document = False, sticker = False, animation = False, video_note = False,
          chat_id = 1, message_id = 44\<rparr>, effective_user = Some 1\<rparr>"
      "\<lparr>msg_text = Some ''/hello'', photo = True, video = False, audio = False,
          voice = False, document = False, sticker = False, animation = False, video_note = False,
          chat_id = 1, message_id = 44\<rparr>" 1 "''hello''"
      "\<lparr>GROUP_ID = Some (-100), ADMIN_IDS = [9]\<rparr>"
      "\<lparr>raises = (\<lambda>a. False), error_text = (\<lambda>a. [])\<rparr>" "\<lambda>a b. Diff (a - b)" 5
      "\<lparr>queue = [3], sessions = [(1, 2), (2, 1)], last_time = Map.empty\<rparr>"]
  by simp



text \<open>
  Claim C7: a message that is not a command and carries an attachment, with a group
  configured (\<open>GROUP_ID\<close> set and true in \<^verbatim>\<open>if GROUP_ID and has_attachment\<close>, that is, not
  \<open>0\<close>). For every state (paired, queued or idle sender, any ledger) and every clock
  reading the first call is the forward to the group. The state returned and the calls
  after the mirror are those of the same message handled with no group configured, so
  the mirror writes no timestamp, and they are the same whether or not the forward
  raised; a sender with a partner who is not throttled gets the copy to the partner.
\<close>

theorem mirror_independent:
  assumes "effective_message upd = Some msg" and "effective_user upd = Some uid"
    and "\<not> is_command_text msg" and "has_attachment msg"
    and "GROUP_ID cfg = Some g" and "g \<noteq> 0"
  shows "handle_all_messages (cfg\<lparr>GROUP_ID := None\<rparr>) tr fsub now upd s
           = Inr (relay_or_prompt cfg tr fsub now uid msg s)
       \<and> handle_all_messages cfg tr fsub now upd s
           = Inr (fst (relay_or_prompt cfg tr fsub now uid msg s),
                  Forward_message g (chat_id msg) (message_id msg) #
                  (if raises tr (Forward_message g (chat_id msg) (message_id msg))
                   then notify_admins cfg (''Group forward failed: '' @
                          error_text tr (Forward_message g (chat_id msg) (message_id msg)))
                   else []) @
                  snd (relay_or_prompt cfg tr fsub now uid msg s))
       \<and> (\<forall>p. map_of (sessions s) uid = Some p \<and> p \<noteq> 0 \<and> \<not> fst (rate_limited fsub uid now s)
              \<longrightarrow> Copy_message p (chat_id msg) (message_id msg)
                    \<in> set (snd (relay_or_prompt cfg tr fsub now uid msg s)))"
proof -
  have n: "notify_admins (cfg\<lparr>GROUP_ID := None\<rparr>) = notify_admins cfg"
    by (simp add: notify_admins_def fun_eq_iff)
  have r: "relay_or_prompt (cfg\<lparr>GROUP_ID := None\<rparr>) tr fsub now uid msg s = relay_or_prompt cfg tr fsub now uid msg s"
    by (simp only: relay_or_prompt_def n)
  have a: "handle_all_messages (cfg\<lparr>GROUP_ID := None\<rparr>) tr fsub now upd s
           = Inr (relay_or_prompt cfg tr fsub now uid msg s)"
    using assms(1-3) by (simp add: handle_all_messages_def r mirror_def split_beta)
  have b: "handle_all_messages cfg tr fsub now upd s
           = Inr (fst (relay_or_prompt cfg tr fsub now uid msg s),
                  Forward_message g (chat_id msg) (message_id msg) #
                  (if raises tr (Forward_message g (chat_id msg) (message_id msg))
                   then notify_admins cfg (''Group forward failed: '' @
                          error_text tr (Forward_message g (chat_id msg) (message_id msg)))
                   else []) @
                  snd (relay_or_prompt cfg tr fsub now uid msg s))"
    using assms by (simp add: handle_all_messages_def mirror_def split_beta Let_def)
  have c: "\<forall>p. map_of (sessions s) uid = Some p \<and> p \<noteq> 0 \<and> \<not> fst (rate_limited fsub uid now s)
              \<longrightarrow> Copy_message p (chat_id msg) (message_id msg)
                    \<in> set (snd (relay_or_prompt cfg tr fsub now uid msg s))"
    by (auto simp: relay_or_prompt_def rate_limited_def Let_def split: option.splits)
  from a b c show ?thesis by blast
qed

text \<open>
  Claim C7 at a paired sender with a photo, where every call to the transport raises:
  the forward is attempted, its failure goes to the administrator, and the copy to the
  partner is attempted all the same.
\<close>

theorem mirror_independent_witness:
  "handle_all_messages \<lparr>GROUP_ID = Some (-100), ADMIN_IDS = [9]\<rparr>
      \<lparr>raises = (\<lambda>a. True), error_text = (\<lambda>a. ''timeout'')\<rparr> (\<lambda>a b. Diff (a - b)) 5
      \<lparr>effective_message = Some \<lparr>msg_text = None, photo = True, video = False, audio = False,
          voice = False, document = False, sticker = False, animation = False, video_note = False,
          chat_id = 1, message_id = 44\<rparr>, effective_user = Some 1\<rparr>
      \<lparr>queue = [3], sessions = [(1, 2), (2, 1)], last_time = Map.empty\<rparr>
    = Inr (\<lparr>queue = [3], sessions = [(1, 2), (2, 1)], last_time = [1 \<mapsto> 5]\<rparr>,
           [Forward_message (-100) 1 44,
            Send_message 9 ''[ADMIN] Group forward failed: timeout'',
            Copy_message 2 1 44,
            Send_message 9 ''[ADMIN] Relay failed: timeout''])"
  using mirror_independent [of
      "\<lparr>effective_message = Some \<lparr>msg_text = None, photo = True, video = False, audio = False,
          voice = False, document = False, sticker = False, animation = False, video_note = False,
          chat_id = 1, message_id = 44\<rparr>, effective_user = Some 1\<rparr>"
      "\<lparr>msg_text = None, photo = True, video = False, audio = False,
          voice = False, document = False, sticker = False, animation = False, video_note = False,
          chat_id = 1, message_id = 44\<rparr>" 1
      "\<lparr>GROUP_ID = Some (-100), ADMIN_IDS = [9]\<rparr>" "-100"
      "\<lparr>raises = (\<lambda>a. True), error_text = (\<lambda>a. ''timeout'')\<rparr>" "\<lambda>a b. Diff (a - b)" 5
      "\<lparr>queue = [3], sessions = [(1, 2), (2, 1)], last_time = Map.empty\<rparr>"]
  by (simp add: is_command_text_def has_attachment_def relay_or_prompt_def rate_limited_def
        notify_admins_def)

end
